theory Spec2Isabelle
  imports Complex_Main "HOL-Library.Log_Nat" "HOL-Library.AList"
begin

section \<open>Python values used by the scripts\<close>

text \<open>
  The exceptions the two scripts can meet. None of them is caught anywhere in
  \<^verbatim>\<open>train.py\<close> or \<^verbatim>\<open>score_local.py\<close>; the only place where failures are
  dropped is inside \<^verbatim>\<open>shutil.rmtree(model_dir, ignore_errors=True)\<close>.
\<close>

datatype error =
    OverflowError
  | ValueError
  | IndexError
  | FileNotFoundError
  | FileExistsError
  | PermissionError
  | MlflowException
  | ShutilError "string list"
  | TypeError
  | SystemExit int
  | FrameworkError string

subsection \<open>Double-precision floats\<close>

text \<open>
  A Python \<^verbatim>\<open>float\<close> is an IEEE-754 binary64 value. A finite one is written
  \<open>Finite m e\<close> and denotes \<open>m * 2 ^ e\<close>; the sign of zero is not kept, since
  \<^verbatim>\<open>int\<close> maps both zeros to \<open>0\<close>.
\<close>

datatype pyfloat = Finite int int | PosInf | NegInf | NaN

definition float_value :: "int \<Rightarrow> int \<Rightarrow> real" where
  "float_value m e = (if 0 \<le> e then of_int m * 2 ^ nat e else of_int m / 2 ^ nat (- e))"

text \<open>The finite doubles: 53 bits of significand, exponents from the subnormals up.\<close>

definition is_double :: "pyfloat \<Rightarrow> bool" where
  "is_double x = (case x of
      Finite m e \<Rightarrow> \<bar>m\<bar> < 2 ^ 53 \<and> - 1074 \<le> e \<and> e \<le> 971
    | _ \<Rightarrow> True)"

text \<open>Nearest integer to \<open>m / 2 ^ d\<close>, ties to the even neighbour.\<close>

definition round_half_even :: "int \<Rightarrow> nat \<Rightarrow> int" where
  "round_half_even m d =
     (let q = m div 2 ^ d; r = m mod 2 ^ d in
      if 2 * r < 2 ^ d then q
      else if 2 ^ d < 2 * r then q + 1
      else if even q then q else q + 1)"

text \<open>
  Rounding of the exact value \<open>m * 2 ^ e\<close> to the nearest double (round to nearest,
  ties to even): the significand keeps 53 bits, the exponent does not go below
  \<open>-1074\<close>, and a result of magnitude \<open>2 ^ 1024\<close> or more is an infinity.
\<close>

definition fl_round :: "int \<Rightarrow> int \<Rightarrow> pyfloat" where
  "fl_round m e =
     (let d = max (bitlen \<bar>m\<bar> - 53) (- 1074 - e);
          q = (if d \<le> 0 then m else round_half_even m (nat d));
          e' = (if d \<le> 0 then e else e + d)
      in if q \<noteq> 0 \<and> 1024 < bitlen \<bar>q\<bar> + e' then (if 0 < m then PosInf else NegInf)
         else Finite q e')"

text \<open>
  \<^verbatim>\<open>int * float\<close> first converts the integer, which raises \<^verbatim>\<open>OverflowError\<close>
  when it is too large for a double.
\<close>

definition int_to_float :: "int \<Rightarrow> error + pyfloat" where
  "int_to_float n =
     (case fl_round n 0 of
        Finite m e \<Rightarrow> Inr (Finite m e)
      | _ \<Rightarrow> Inl OverflowError)"

definition float_sign :: "pyfloat \<Rightarrow> int" where
  "float_sign x = (case x of
      Finite m e \<Rightarrow> sgn m | PosInf \<Rightarrow> 1 | NegInf \<Rightarrow> - 1 | NaN \<Rightarrow> 0)"

fun float_mul :: "pyfloat \<Rightarrow> pyfloat \<Rightarrow> pyfloat" where
  "float_mul NaN y = NaN"
| "float_mul x NaN = NaN"
| "float_mul (Finite m1 e1) (Finite m2 e2) = fl_round (m1 * m2) (e1 + e2)"
| "float_mul x y =
     (let s = float_sign x * float_sign y in
      if s = 0 then NaN else if 0 < s then PosInf else NegInf)"

text \<open>\<^verbatim>\<open>int(x)\<close> truncates toward zero and raises on infinities and NaN.\<close>

definition py_int :: "pyfloat \<Rightarrow> error + int" where
  "py_int x = (case x of
      Finite m e \<Rightarrow>
        Inr (if 0 \<le> e then m * 2 ^ nat e else sgn m * (\<bar>m\<bar> div 2 ^ nat (- e)))
    | PosInf \<Rightarrow> Inl OverflowError
    | NegInf \<Rightarrow> Inl OverflowError
    | NaN \<Rightarrow> Inl ValueError)"

section \<open>train.py: the data split\<close>

text \<open>
  Lines 50-52 of \<^verbatim>\<open>load_train_val_data\<close>:
  \<^verbatim>\<open>train_len = int(full_train_len * training_fraction)\<close> and
  \<^verbatim>\<open>val_len = full_train_len - train_len\<close>. The result is the pair of lengths
  handed to \<^verbatim>\<open>random_split\<close>.
\<close>

definition split_lengths :: "int \<Rightarrow> pyfloat \<Rightarrow> error + (int \<times> int)" where
  "split_lengths full_train_len training_fraction =
     (case int_to_float full_train_len of
        Inl err \<Rightarrow> Inl err
      | Inr x \<Rightarrow>
          (case py_int (float_mul x training_fraction) of
             Inl err \<Rightarrow> Inl err
           | Inr train_len \<Rightarrow> Inr (train_len, full_train_len - train_len)))"

section \<open>train.py: saving the model\<close>

subsection \<open>The filesystem\<close>

text \<open>
  \<^verbatim>\<open>save_model\<close> touches two directories: the temporary one and \<^verbatim>\<open>model_dir\<close>.
  A directory is the list of its entries in listing order, each a path relative to
  the directory with the file's contents (a subdirectory's files appear under their
  relative paths). The filesystem maps a directory path to its entries, or to
  \<open>None\<close> when the directory does not exist. It also says which operations the
  operating system refuses: \<open>undeletable d n\<close> when entry \<open>n\<close> of directory \<open>d\<close> cannot
  be removed (\<open>undeletable d []\<close> for the directory itself), and \<open>unwritable d n\<close>
  when entry \<open>n\<close> of \<open>d\<close> cannot be created or overwritten.
\<close>

type_synonym dir = "(string \<times> string) list"

record filesystem =
  dirs :: "string \<Rightarrow> dir option"
  undeletable :: "string \<Rightarrow> string \<Rightarrow> bool"
  unwritable :: "string \<Rightarrow> string \<Rightarrow> bool"
  tempdir :: string

subsection \<open>The library calls of \<^verbatim>\<open>save_model\<close>\<close>

text \<open>
  \<^verbatim>\<open>mlflow.pytorch.save_model(pytorch_model, path, code_paths)\<close> refuses a path that
  exists and is not empty; otherwise it creates the directory and writes the
  artifact (the serialised model, its metadata and the copies of \<^verbatim>\<open>code_paths\<close>).
  The temporary directory is taken to be writable.
\<close>

definition mlflow_pytorch_save_model ::
  "dir \<Rightarrow> string \<Rightarrow> filesystem \<Rightarrow> error option \<times> filesystem" where
  "mlflow_pytorch_save_model artifact path fs =
     (case dirs fs path of
        Some (x # xs) \<Rightarrow> (Some MlflowException, fs)
      | _ \<Rightarrow> (None, fs\<lparr>dirs := (dirs fs)(path \<mapsto> artifact)\<rparr>))"

text \<open>
  What \<^verbatim>\<open>shutil.rmtree\<close> leaves of a directory when it goes on after every failure:
  the entries that can be removed are removed, the others stay, and the directory
  itself stays when it is not empty or cannot be removed.
\<close>

definition after_rmtree :: "string \<Rightarrow> filesystem \<Rightarrow> dir option" where
  "after_rmtree path fs =
     (case dirs fs path of
        None \<Rightarrow> None
      | Some entries \<Rightarrow>
          (let kept = filter (\<lambda>(n, c). undeletable fs path n) entries in
           if kept = [] \<and> \<not> undeletable fs path [] then None else Some kept))"

text \<open>
  \<^verbatim>\<open>shutil.rmtree(path, ignore_errors)\<close>. With \<^verbatim>\<open>ignore_errors\<close> every failure is
  dropped, a missing directory included, and the call returns normally. Without it
  the first failure is raised and the rest of the tree is left in place.
\<close>

definition rmtree :: "string \<Rightarrow> bool \<Rightarrow> filesystem \<Rightarrow> error option \<times> filesystem" where
  "rmtree path ignore_errors fs =
     (if ignore_errors
      then (None, fs\<lparr>dirs := (dirs fs)(path := after_rmtree path fs)\<rparr>)
      else
        (case dirs fs path of
           None \<Rightarrow> (Some FileNotFoundError, fs)
         | Some entries \<Rightarrow>
             (let rest = dropWhile (\<lambda>(n, c). \<not> undeletable fs path n) entries in
              if rest = [] \<and> \<not> undeletable fs path []
              then (None, fs\<lparr>dirs := (dirs fs)(path := None)\<rparr>)
              else (Some PermissionError, fs\<lparr>dirs := (dirs fs)(path \<mapsto> rest)\<rparr>))))"

text \<open>
  The copy loop of \<^verbatim>\<open>shutil.copytree\<close>: each entry of the source is copied over the
  destination entry of the same name; an entry that cannot be written is noted and
  the loop goes on.
\<close>

fun copy_entries :: "(string \<Rightarrow> bool) \<Rightarrow> dir \<Rightarrow> dir \<Rightarrow> string list \<times> dir" where
  "copy_entries locked [] dst = ([], dst)"
| "copy_entries locked ((n, c) # es) dst =
     (if locked n
      then (case copy_entries locked es dst of (errs, d) \<Rightarrow> (n # errs, d))
      else copy_entries locked es (AList.update n c dst))"

text \<open>
  \<^verbatim>\<open>shutil.copytree(src, dst, dirs_exist_ok)\<close>: lists the source, creates the
  destination (an existing one is an error unless \<^verbatim>\<open>dirs_exist_ok\<close>), copies, and
  raises \<^verbatim>\<open>shutil.Error\<close> with the collected failures at the end.
\<close>

definition copytree ::
  "string \<Rightarrow> string \<Rightarrow> bool \<Rightarrow> filesystem \<Rightarrow> error option \<times> filesystem" where
  "copytree src dst dirs_exist_ok fs =
     (case dirs fs src of
        None \<Rightarrow> (Some FileNotFoundError, fs)
      | Some entries \<Rightarrow>
          if dirs fs dst \<noteq> None \<and> \<not> dirs_exist_ok then (Some FileExistsError, fs)
          else
            (case copy_entries (unwritable fs dst) entries
                    (case dirs fs dst of None \<Rightarrow> [] | Some d \<Rightarrow> d) of
               (errs, d) \<Rightarrow>
                 (if errs = [] then None else Some (ShutilError errs),
                  fs\<lparr>dirs := (dirs fs)(dst \<mapsto> d)\<rparr>)))"

subsection \<open>\<^verbatim>\<open>save_model\<close>\<close>

text \<open>
  \<^verbatim>\<open>temp_path = Path(tempfile.gettempdir(), str(uuid.uuid4()))\<close>; the drawn UUID is
  an argument of the model.
\<close>

definition temp_path :: "filesystem \<Rightarrow> string \<Rightarrow> string" where
  "temp_path fs uuid = tempdir fs @ ''/'' @ uuid"

text \<open>
  The three calls of \<^verbatim>\<open>save_model\<close> in order, with the filesystem as it is before
  the first call and after each call that ran. An exception ends the run.
\<close>

definition save_model_run ::
  "dir \<Rightarrow> string \<Rightarrow> string \<Rightarrow> filesystem \<Rightarrow> error option \<times> filesystem list" where
  "save_model_run artifact uuid model_dir fs =
     (case mlflow_pytorch_save_model artifact (temp_path fs uuid) fs of
        (Some e, fs1) \<Rightarrow> (Some e, [fs, fs1])
      | (None, fs1) \<Rightarrow>
          (case rmtree model_dir True fs1 of
             (Some e, fs2) \<Rightarrow> (Some e, [fs, fs1, fs2])
           | (None, fs2) \<Rightarrow>
               (case copytree (temp_path fs uuid) model_dir True fs2 of
                  (r, fs3) \<Rightarrow> (r, [fs, fs1, fs2, fs3]))))"

definition save_model ::
  "dir \<Rightarrow> string \<Rightarrow> string \<Rightarrow> filesystem \<Rightarrow> error option \<times> filesystem" where
  "save_model artifact uuid model_dir fs =
     (case save_model_run artifact uuid model_dir fs of (r, states) \<Rightarrow> (r, last states))"

text \<open>Filesystems used as concrete inputs.\<close>

definition fs_old_model :: filesystem where
  "fs_old_model =
     \<lparr>dirs = (\<lambda>p. None)(''model'' \<mapsto> [(''old.bin'', ''0'')]),
      undeletable = (\<lambda>d n. False), unwritable = (\<lambda>d n. False), tempdir = ''/tmp''\<rparr>"

definition fs_locked_model :: filesystem where
  "fs_locked_model =
     \<lparr>dirs = (\<lambda>p. None)(''model'' \<mapsto> [(''old.bin'', ''0'')]),
      undeletable = (\<lambda>d n. d = ''model'' \<and> n = ''old.bin''),
      unwritable = (\<lambda>d n. False), tempdir = ''/tmp''\<rparr>"


definition small_artifact :: dir where
  "small_artifact = [(''MLmodel'', ''flavors''), (''data/model.pth'', ''weights'')]"

section \<open>train.py: the training driver\<close>

subsection \<open>Programs with exceptions and state\<close>




subsection \<open>The operations of the pipeline\<close>








subsection \<open>\<^verbatim>\<open>load_train_val_data\<close>\<close>


subsection \<open>\<^verbatim>\<open>save_model\<close> as a step of the run\<close>


subsection \<open>\<^verbatim>\<open>train\<close>\<close>











subsection \<open>\<^verbatim>\<open>main\<close> of train.py and its command line\<close>












section \<open>score_local.py\<close>

definition IMAGES_DIR :: string where
  "IMAGES_DIR = ''aml_batch_endpoint/test_data/images''"

text \<open>\<^verbatim>\<open>MODEL_DIR\<close> of score_local.py.\<close>

definition SCORE_MODEL_DIR :: string where
  "SCORE_MODEL_DIR = ''aml_batch_endpoint/endpoint_1/model''"

text \<open>
  A directory as \<^verbatim>\<open>Path.iterdir\<close> lists it: the names of its direct entries, each
  with the kind of thing it is. \<^verbatim>\<open>Path.is_file\<close> holds of regular files only.
\<close>

datatype kind = RegularFile | Directory | OtherKind

definition is_file :: "kind \<Rightarrow> bool" where
  "is_file k = (k = RegularFile)"

text \<open>
  What the script reads from outside: directory listings (\<open>None\<close> for a directory
  that does not exist), \<^verbatim>\<open>mlflow.pytorch.load_model\<close>, the decoding of an image
  file, and the forward pass of a loaded model, which gives a score to each of the
  ten classes.
\<close>

record ('img, 'model) score_env =
  iterdir :: "string \<Rightarrow> (string \<times> kind) list option"
  load_model :: "string \<Rightarrow> error + 'model"
  read_image :: "string \<Rightarrow> error + 'img"
  forward :: "'model \<Rightarrow> 'img \<Rightarrow> nat \<Rightarrow> real"

text \<open>Lines 22-24: the paths of the regular files directly inside \<^verbatim>\<open>IMAGES_DIR\<close>.\<close>

definition image_paths :: "('img, 'model) score_env \<Rightarrow> error + string list" where
  "image_paths env =
     (case iterdir env IMAGES_DIR of
        None \<Rightarrow> Inl FileNotFoundError
      | Some entries \<Rightarrow>
          Inr (map (\<lambda>(name, k). IMAGES_DIR @ ''/'' @ name)
                 (filter (\<lambda>(name, k). is_file k) entries)))"

text \<open>A list comprehension whose body may raise stops at the first exception.\<close>

fun map_result :: "('a \<Rightarrow> error + 'b) \<Rightarrow> 'a list \<Rightarrow> error + 'b list" where
  "map_result f [] = Inr []"
| "map_result f (x # xs) =
     (case f x of
        Inl e \<Rightarrow> Inl e
      | Inr y \<Rightarrow> (case map_result f xs of Inl e \<Rightarrow> Inl e | Inr ys \<Rightarrow> Inr (y # ys)))"

text \<open>
  Modelled from the spec: \<^verbatim>\<open>FashionMNISTDatasetFromImages\<close> (module \<^verbatim>\<open>dataset\<close>, not
  among the sources). The dataset wrapper holds one item per image path, the decoded
  image of that file; a file that does not decode raises.
\<close>

definition FashionMNISTDatasetFromImages ::
  "('img, 'model) score_env \<Rightarrow> string list \<Rightarrow> error + 'img list" where
  "FashionMNISTDatasetFromImages env paths = map_result (read_image env) paths"

text \<open>The index of the highest of ten scores (the first one among equals).\<close>

definition argmax10 :: "(nat \<Rightarrow> real) \<Rightarrow> nat" where
  "argmax10 scores = fold (\<lambda>i best. if scores best < scores i then i else best) [1..<10] 0"

text \<open>
  Modelled from the spec: \<^verbatim>\<open>predict\<close> (module \<^verbatim>\<open>utils_score_nn\<close>, not among the
  sources). It runs the predictions and returns one class index per item of the
  dataset, the class the model scores highest.
\<close>

definition predict :: "('img, 'model) score_env \<Rightarrow> 'img list \<Rightarrow> 'model \<Rightarrow> nat list" where
  "predict env dataloader model = map (\<lambda>x. argmax10 (forward env model x)) dataloader"

text \<open>\<^verbatim>\<open>FashionMNIST.classes\<close> of torchvision, and indexing into it.\<close>

definition FashionMNIST_classes :: "string list" where
  "FashionMNIST_classes =
     [''T-shirt/top'', ''Trouser'', ''Pullover'', ''Dress'', ''Coat'',
      ''Sandal'', ''Shirt'', ''Sneaker'', ''Bag'', ''Ankle boot'']"

definition class_name :: "nat \<Rightarrow> error + string" where
  "class_name predicted_index =
     (if predicted_index < length FashionMNIST_classes
      then Inr (FashionMNIST_classes ! predicted_index) else Inl IndexError)"

text \<open>\<^verbatim>\<open>main\<close> of score_local.py; its value is the list of predictions it logs.\<close>

definition score_main :: "('img, 'model) score_env \<Rightarrow> error + string list" where
  "score_main env =
     (case load_model env SCORE_MODEL_DIR of
        Inl e \<Rightarrow> Inl e
      | Inr model \<Rightarrow>
          (case image_paths env of
             Inl e \<Rightarrow> Inl e
           | Inr paths \<Rightarrow>
               (case FashionMNISTDatasetFromImages env paths of
                  Inl e \<Rightarrow> Inl e
                | Inr images_dataset \<Rightarrow>
                    map_result class_name (predict env images_dataset model))))"


text \<open>A directory of two images and a subdirectory, with a model that always favours class 3.\<close>

definition toy_score_env :: "(nat, unit) score_env" where
  "toy_score_env =
     \<lparr>iterdir = (\<lambda>p. if p = IMAGES_DIR
                      then Some [(''a.png'', RegularFile), (''sub'', Directory),
                                 (''b.png'', RegularFile)]
                      else None),
      load_model = (\<lambda>p. if p = SCORE_MODEL_DIR then Inr () else Inl MlflowException),
      read_image = (\<lambda>p. Inr (length p)),
      forward = (\<lambda>model x i. if i = 3 then 1 else 0)\<rparr>"

section \<open>Properties of the data split\<close>

lemma split_lengths_sum:
  "split_lengths L f = Inr (t, v) \<Longrightarrow> t + v = L"
  by (auto simp: split_lengths_def split: sum.splits)

lemma int_div_mult_le: "0 < D \<Longrightarrow> M div D * D \<le> (M::int)"
proof -
  assume "0 < D"
  then have "0 \<le> M mod D" by (rule pos_mod_sign)
  moreover have "M div D * D + M mod D = M" by (rule div_mult_mod_eq)
  ultimately show ?thesis by linarith
qed
lemma int_div_less: "0 < D \<Longrightarrow> M < D * B \<Longrightarrow> M div D < (B::int)"
proof (rule ccontr)
  assume D: "0 < D" and M: "M < D * B" and "\<not> M div D < B"
  then have "B \<le> M div D" by simp
  then have "B * D \<le> M div D * D" using D by simp
  also have "\<dots> \<le> M" using D by (rule int_div_mult_le)
  finally show False using M by (simp add: mult.commute)
qed

lemma float_value_mult: "of_int L * float_value m e = float_value (L * m) e"
  by (simp add: float_value_def)

lemma floor_float_value:
  "\<lfloor>float_value M E\<rfloor> = (if 0 \<le> E then M * 2 ^ nat E else M div 2 ^ nat (- E))"
proof (cases "0 \<le> E")
  case True
  have "float_value M E = of_int (M * 2 ^ nat E)" using True by (simp add: float_value_def)
  then show ?thesis using True by (simp only: floor_of_int if_True)
next
  case False
  have "float_value M E = of_int M / of_int (2 ^ nat (- E))"
    using False by (simp add: float_value_def)
  then show ?thesis using False by (simp only: floor_divide_of_int_eq if_False)
qed

lemma ceiling_float_value_neg:
  "E < 0 \<Longrightarrow> \<lceil>float_value M E\<rceil> = - ((- M) div 2 ^ nat (- E))"
proof -
  assume "E < 0"
  then have "- float_value M E = of_int (- M) / of_int (2 ^ nat (- E))"
    by (simp add: float_value_def)
  then have "\<lfloor>- float_value M E\<rfloor> = (- M) div 2 ^ nat (- E)"
    by (simp only: floor_divide_of_int_eq)
  then show ?thesis by (simp add: ceiling_def)
qed

lemma round_half_even_bounds:
  "m div 2 ^ d \<le> round_half_even m d \<and> round_half_even m d \<le> m div 2 ^ d + 1"
  by (simp add: round_half_even_def Let_def)

lemma round_half_even_exact:
  "m mod 2 ^ d = 0 \<Longrightarrow> round_half_even m d = m div 2 ^ d"
  by (simp add: round_half_even_def Let_def)

lemma int_to_float_exact:
  assumes "0 \<le> L" "L < 2 ^ 53"
  shows "int_to_float L = Inr (Finite L 0)"
proof -
  have "bitlen \<bar>L\<bar> \<le> 53" using assms by (simp add: bitlen_le_iff_power)
  moreover have "0 \<le> bitlen \<bar>L\<bar>" by (rule bitlen_nonneg)
  ultimately show ?thesis
    by (simp add: int_to_float_def fl_round_def Let_def max_def)
qed

lemma div_lower:
  fixes M D P q :: int
  assumes "0 < D" "0 < P" "M div D \<le> q"
  shows "M div (D * P) \<le> q div P"
proof -
  have "M div (D * P) = (M div D) div P"
    using assms(2) by (simp add: zdiv_zmult2_eq)
  also have "\<dots> \<le> q div P"
    using assms(2,3) by (simp add: zdiv_mono1)
  finally show ?thesis .
qed

lemma div_upper:
  fixes M D P q :: int
  assumes D: "0 < D" and P: "0 < P" and q: "q \<le> M div D + 1"
    and r: "q = M div D + 1 \<Longrightarrow> M mod D \<noteq> 0"
  shows "q div P \<le> - ((- M) div (D * P))"
proof (rule ccontr)
  define c where "c = - ((- M) div (D * P))"
  define t where "t = q div P"
  define a where "a = M div D"
  assume "\<not> q div P \<le> - ((- M) div (D * P))"
  then have tc: "c + 1 \<le> t" by (simp add: c_def t_def)
  have N: "0 < D * P" using D P by simp
  have "(- M) div (D * P) * (D * P) \<le> - M"
    using N by (rule int_div_mult_le)
  then have cN: "M \<le> c * (D * P)" by (simp add: c_def)
  have "t * P \<le> q" unfolding t_def using P by (rule int_div_mult_le)
  moreover have "(c + 1) * P \<le> t * P" using tc P by simp
  ultimately have "c * P + P \<le> q" by (simp add: algebra_simps)
  then have cPa: "c * P + P \<le> a + 1" using q by (simp add: a_def)
  have aD: "a * D \<le> M" unfolding a_def using D by (rule int_div_mult_le)
  show False
  proof (cases "q = a + 1")
    case True
    then have "M mod D \<noteq> 0" using r by (simp add: a_def)
    then have "0 < M mod D" using D by (simp add: order_less_le)
    then have "a * D < M" unfolding a_def
      by (metis mult.commute less_add_same_cancel1 mult_div_mod_eq)
    moreover have "c * P \<le> a" using cPa P by simp
    then have "c * P * D \<le> a * D" using D by simp
    ultimately have "c * (D * P) < M" by (simp add: mult.left_commute mult.commute)
    then show False using cN by simp
  next
    case False
    then have "q \<le> a" using q by (simp add: a_def)
    then have "c * P + P \<le> a" using \<open>c * P + P \<le> q\<close> by simp
    then have "c * P < a" using P by simp
    then have "c * P * D < a * D" using D by simp
    then have "c * (D * P) < M" using aD by (simp add: mult.left_commute mult.commute)
    then show False using cN by simp
  qed
qed

lemma py_int_nonneg:
  "0 \<le> q \<Longrightarrow> e \<le> 0 \<Longrightarrow> py_int (Finite q e) = Inr (q div 2 ^ nat (- e))"
  by (cases "q = 0") (auto simp: py_int_def)

lemma fl_round_small:
  assumes "0 \<le> M" "bitlen M \<le> 53" "- 1074 \<le> E" "E \<le> 971"
  shows "fl_round M E = Finite M E"
  using assms by (simp add: fl_round_def Let_def max_def)

lemma py_int_floor:
  assumes "0 \<le> M"
  shows "py_int (Finite M E) = Inr \<lfloor>float_value M E\<rfloor>"
proof (cases "0 \<le> E")
  case True
  then show ?thesis by (simp add: py_int_def floor_float_value)
next
  case False
  then show ?thesis using assms py_int_nonneg [of M E] by (simp add: floor_float_value)
qed

lemma fl_round_large:
  assumes M: "0 \<le> M" and big: "53 < bitlen M" and E: "- 1074 \<le> E"
    and x: "float_value M E < 2 ^ 53"
  shows "\<exists>q d. fl_round M E = Finite q (E + d) \<and> 0 < d \<and> E + d \<le> 0 \<and> 0 \<le> q
            \<and> M div 2 ^ nat d \<le> q \<and> q \<le> M div 2 ^ nat d + 1
            \<and> (q = M div 2 ^ nat d + 1 \<longrightarrow> M mod 2 ^ nat d \<noteq> 0)"
proof -
  define d where "d = bitlen M - 53"
  define q where "q = round_half_even M (nat d)"
  have Mpos: "0 < M" using big M by (cases "M = 0") auto
  have d: "0 < d" using big by (simp add: d_def)
  have dmax: "max (bitlen \<bar>M\<bar> - 53) (- 1074 - E) = d"
    using M E d by (simp add: d_def max_def)
  have lo: "2 ^ nat (bitlen M - 1) \<le> M" using bitlen_bounds [OF Mpos] by simp
  have hi: "M < 2 ^ nat (bitlen M)" using bitlen_bounds [OF Mpos] by simp
  have Eneg: "E < 0"
  proof (rule ccontr)
    assume "\<not> E < 0"
    then have "float_value M E = of_int M * 2 ^ nat E" by (simp add: float_value_def)
    moreover have "(1::real) \<le> 2 ^ nat E" by simp
    moreover have "(0::real) \<le> of_int M" using M by simp
    ultimately have "of_int M \<le> float_value M E"
      by (metis mult.right_neutral mult_left_mono)
    then have "real_of_int M < 2 ^ 53" using x by simp
    then have "M < 2 ^ 53" by (metis of_int_less_numeral_power_cancel_iff)
    then have "bitlen M \<le> 53" by (simp add: bitlen_le_iff_power)
    then show False using big by simp
  qed
  have sum: "E + d \<le> 0"
  proof -
    have "float_value M E = of_int M / 2 ^ nat (- E)" using Eneg by (simp add: float_value_def)
    then have "real_of_int M / 2 ^ nat (- E) < 2 ^ 53" using x by simp
    then have "real_of_int M < 2 ^ 53 * 2 ^ nat (- E)" by (simp add: pos_divide_less_eq)
    then have "real_of_int M < of_int (2 ^ (53 + nat (- E)))" by (simp add: power_add)
    then have "M < 2 ^ (53 + nat (- E))" by (simp only: of_int_less_iff)
    moreover have "53 + nat (- E) = nat (53 - E)" using Eneg by linarith
    ultimately have "M < 2 ^ nat (53 - E)" by simp
    then have "bitlen M \<le> 53 - E" using Eneg by (simp add: bitlen_le_iff_power)
    then show ?thesis by (simp add: d_def)
  qed
  have bnd: "M div 2 ^ nat d \<le> q \<and> q \<le> M div 2 ^ nat d + 1"
    unfolding q_def by (rule round_half_even_bounds)
  have a0: "0 \<le> M div 2 ^ nat d" using M by (simp add: pos_imp_zdiv_nonneg_iff)
  then have q0: "0 \<le> q" using bnd by simp
  have "M < 2 ^ nat d * 2 ^ 53"
  proof -
    have "nat (bitlen M) = nat d + 53" using d by (simp add: d_def)
    then show ?thesis using hi by (simp add: power_add)
  qed
  then have "M div 2 ^ nat d < 2 ^ 53"
    by (intro int_div_less) simp_all
  then have "q < 2 ^ 54" using bnd by simp
  then have "bitlen \<bar>q\<bar> \<le> 54" using q0 by (simp add: bitlen_le_iff_power)
  then have noov: "\<not> 1024 < bitlen \<bar>q\<bar> + (E + d)" using sum by simp
  have ex: "q = M div 2 ^ nat d + 1 \<longrightarrow> M mod 2 ^ nat d \<noteq> 0"
    using round_half_even_exact [of M "nat d"] by (auto simp: q_def)
  have "fl_round M E = Finite q (E + d)"
    using d noov by (simp add: fl_round_def dmax Let_def q_def [symmetric])
  then show ?thesis using d sum q0 bnd ex by blast
qed

lemma train_len_core:
  assumes M: "0 \<le> M" and E: "- 1074 \<le> E" "E \<le> 971"
    and x: "float_value M E < 2 ^ 53"
  shows "\<exists>t. py_int (fl_round M E) = Inr t
            \<and> \<lfloor>float_value M E\<rfloor> \<le> t \<and> t \<le> \<lceil>float_value M E\<rceil>
            \<and> (bitlen M \<le> 53 \<longrightarrow> t = \<lfloor>float_value M E\<rfloor>)"
proof (cases "bitlen M \<le> 53")
  case True
  then have "fl_round M E = Finite M E" using M E by (simp add: fl_round_small)
  then have "py_int (fl_round M E) = Inr \<lfloor>float_value M E\<rfloor>"
    using M by (simp add: py_int_floor)
  then show ?thesis by (simp add: floor_le_ceiling)
next
  case False
  then have big: "53 < bitlen M" by simp
  from fl_round_large [OF M big E(1) x] obtain q d where
    fl: "fl_round M E = Finite q (E + d)" and d: "0 < d" and s: "E + d \<le> 0" and q0: "0 \<le> q"
    and lo: "M div 2 ^ nat d \<le> q" and hi: "q \<le> M div 2 ^ nat d + 1"
    and ex: "q = M div 2 ^ nat d + 1 \<longrightarrow> M mod 2 ^ nat d \<noteq> 0"
    by blast
  define p where "p = nat (- (E + d))"
  have Eneg: "E < 0" using d s by simp
  have n: "nat (- E) = nat d + p" using d s by (simp add: p_def)
  have pw: "(2::int) ^ nat (- E) = 2 ^ nat d * 2 ^ p" by (simp add: n power_add)
  have t: "py_int (fl_round M E) = Inr (q div 2 ^ p)"
    using py_int_nonneg [OF q0 s] by (simp add: fl p_def)
  have fx: "\<lfloor>float_value M E\<rfloor> = M div (2 ^ nat d * 2 ^ p)"
    using Eneg by (simp add: floor_float_value pw)
  have cx: "\<lceil>float_value M E\<rceil> = - ((- M) div (2 ^ nat d * 2 ^ p))"
    using Eneg by (simp add: ceiling_float_value_neg pw)
  have "M div (2 ^ nat d * 2 ^ p) \<le> q div 2 ^ p"
    by (rule div_lower) (use lo in simp_all)
  moreover have "q div 2 ^ p \<le> - ((- M) div (2 ^ nat d * 2 ^ p))"
    by (rule div_upper) (use hi ex in simp_all)
  ultimately show ?thesis using t fx cx False by simp
qed

lemma split_lengths_eq:
  assumes "0 \<le> L" "L < 2 ^ 53"
  shows "split_lengths L (Finite m e) =
           (case py_int (fl_round (L * m) e) of Inl err \<Rightarrow> Inl err | Inr t \<Rightarrow> Inr (t, L - t))"
  using int_to_float_exact [OF assms] by (simp add: split_lengths_def)

text \<open>
  Claim C2, as amended. For a dataset length \<open>0 \<le> L < 2 ^ 53\<close> and a finite double
  \<open>f = m * 2 ^ e\<close> with \<open>0 \<le> f\<close> and \<open>L * f < 2 ^ 53\<close> (every \<open>f\<close> in \<open>[0, 1]\<close> is
  one), \<^verbatim>\<open>load_train_val_data\<close> computes a
  training length \<open>t\<close> (and the validation length \<open>L - t\<close>); \<open>t\<close> is the integer part
  of the double-precision product, so it lies between the floor and the ceiling of the
  real product \<open>L * f\<close>, and it is the floor whenever the product needs no rounding
  (its significand \<open>L * m\<close> fits in 53 bits).
\<close>

theorem train_len_floor_of_double_product:
  assumes "0 \<le> L" "L < 2 ^ 53" "is_double (Finite m e)" "0 \<le> m"
    and "of_int L * float_value m e < 2 ^ 53"
  shows "\<exists>t. split_lengths L (Finite m e) = Inr (t, L - t)
            \<and> \<lfloor>of_int L * float_value m e\<rfloor> \<le> t
            \<and> t \<le> \<lceil>of_int L * float_value m e\<rceil>
            \<and> (bitlen (L * m) \<le> 53 \<longrightarrow> t = \<lfloor>of_int L * float_value m e\<rfloor>)"
proof -
  have E: "- 1074 \<le> e" "e \<le> 971" using assms(3) by (simp_all add: is_double_def)
  have M: "0 \<le> L * m" using assms(1,4) by simp
  have x: "float_value (L * m) e < 2 ^ 53" using assms(5) by (simp add: float_value_mult)
  from train_len_core [OF M E x] obtain t where
    "py_int (fl_round (L * m) e) = Inr t"
    "\<lfloor>float_value (L * m) e\<rfloor> \<le> t" "t \<le> \<lceil>float_value (L * m) e\<rceil>"
    "bitlen (L * m) \<le> 53 \<longrightarrow> t = \<lfloor>float_value (L * m) e\<rfloor>"
    by blast
  then show ?thesis
    using split_lengths_eq [OF assms(1,2), of m e] by (simp add: float_value_mult)
qed

theorem train_len_floor_of_double_product_witness:
  "split_lengths 10 (Finite 6305039478318694 (- 53)) = Inr (7, 3)
     \<and> \<lfloor>of_int 10 * float_value 6305039478318694 (- 53)\<rfloor> = 6
     \<and> \<lceil>of_int 10 * float_value 6305039478318694 (- 53)\<rceil> = 7"
proof -
  have d: "is_double (Finite 6305039478318694 (- 53))" by (simp add: is_double_def)
  have v: "of_int 10 * float_value 6305039478318694 (- 53) < 2 ^ 53"
    by (simp add: float_value_def)
  from train_len_floor_of_double_product [of 10 6305039478318694 "- 53", OF _ _ d _ v]
  obtain t where "split_lengths 10 (Finite 6305039478318694 (- 53)) = Inr (t, 10 - t)"
    "\<lfloor>of_int 10 * float_value 6305039478318694 (- 53)\<rfloor> \<le> t"
    "t \<le> \<lceil>of_int 10 * float_value 6305039478318694 (- 53)\<rceil>"
    by auto
  moreover have "\<lfloor>of_int 10 * float_value 6305039478318694 (- 53)\<rfloor> = 6"
    by (simp add: float_value_def)
  moreover have "\<lceil>of_int 10 * float_value 6305039478318694 (- 53)\<rceil> = 7"
    by (simp add: float_value_def)
  moreover have "split_lengths 10 (Finite 6305039478318694 (- 53)) = Inr (7, 3)"
    by code_simp
  ultimately show ?thesis by simp
qed

text \<open>
  Claim C2 as stated fails. With \<open>L = 10\<close> and \<open>f\<close> the double nearest to \<open>0.7\<close>
  (\<open>6305039478318694 * 2 ^ -53\<close>, just below \<open>0.7\<close>) the real product is
  \<open>7 - 2 ^ -51\<close>, whose floor is \<open>6\<close>; the double product rounds to \<open>7.0\<close> and the
  code computes \<open>7\<close>. With a negative fraction, \<open>f = -0.25\<close>, \<^verbatim>\<open>int\<close> truncates
  \<open>-2.5\<close> toward zero to \<open>-2\<close>, while the floor is \<open>-3\<close>.
\<close>

theorem train_len_not_floor_counterexample:
  "is_double (Finite 6305039478318694 (- 53))
     \<and> 0 \<le> float_value 6305039478318694 (- 53) \<and> float_value 6305039478318694 (- 53) \<le> 1
     \<and> split_lengths 10 (Finite 6305039478318694 (- 53)) = Inr (7, 3)
     \<and> \<lfloor>of_int 10 * float_value 6305039478318694 (- 53)\<rfloor> = 6
     \<and> split_lengths 10 (Finite (- 1) (- 2)) = Inr (- 2, 12)
     \<and> \<lfloor>of_int 10 * float_value (- 1) (- 2)\<rfloor> = - 3"
proof -
  have "split_lengths 10 (Finite 6305039478318694 (- 53)) = Inr (7, 3)" by code_simp
  moreover have "split_lengths 10 (Finite (- 1) (- 2)) = Inr (- 2, 12)" by code_simp
  moreover have "\<lfloor>of_int 10 * float_value (- 1) (- 2)\<rfloor> = - 3"
    by (simp add: float_value_def)
  moreover have "\<lfloor>of_int 10 * float_value 6305039478318694 (- 53)\<rfloor> = 6"
    by (simp add: float_value_def)
  ultimately show ?thesis by (simp add: is_double_def float_value_def)
qed

lemma bitlen_mult_le:
  assumes "0 < a" "0 < b"
  shows "bitlen (a * b) \<le> bitlen a + bitlen b"
proof -
  have a: "a < 2 ^ nat (bitlen a)" using bitlen_bounds [OF assms(1)] by simp
  have b: "b < 2 ^ nat (bitlen b)" using bitlen_bounds [OF assms(2)] by simp
  have "a * b < 2 ^ nat (bitlen a) * 2 ^ nat (bitlen b)"
    using a b assms by (intro mult_strict_mono) simp_all
  also have "\<dots> = 2 ^ nat (bitlen a + bitlen b)"
    by (simp add: power_add [symmetric] nat_add_distrib bitlen_nonneg)
  finally show ?thesis using bitlen_nonneg [of a] bitlen_nonneg [of b]
    by (simp add: bitlen_le_iff_power)
qed

lemma round_half_even_nonneg: "0 \<le> m \<Longrightarrow> 0 \<le> round_half_even m d"
proof -
  assume "0 \<le> m"
  then have "0 \<le> m div 2 ^ d" by (simp add: pos_imp_zdiv_nonneg_iff)
  then show ?thesis using round_half_even_bounds [of m d] by linarith
qed

lemma fl_round_zero: "\<exists>e'. fl_round 0 E = Finite 0 e'"
  by (simp add: fl_round_def Let_def round_half_even_def)

lemma fl_round_finite:
  assumes M: "0 < M" and b: "bitlen M + E \<le> 1023"
  shows "\<exists>q e'. fl_round M E = Finite q e' \<and> 0 \<le> q
            \<and> bitlen q + e' \<le> max (bitlen M + E + 1) (- 1020)"
proof -
  define d where "d = max (bitlen M - 53) (- 1074 - E)"
  have absM: "\<bar>M\<bar> = M" using M by simp
  show ?thesis
  proof (cases "d \<le> 0")
    case True
    then have "fl_round M E = Finite M E"
      using b unfolding fl_round_def absM d_def [symmetric] by (simp add: Let_def absM)
    then show ?thesis using M by simp
  next
    case False
    define q where "q = round_half_even M (nat d)"
    have d: "0 < d" using False by simp
    have q0: "0 \<le> q" unfolding q_def using M by (intro round_half_even_nonneg) simp
    have "bitlen M \<le> 53 + d" using M by (simp add: d_def)
    moreover have "M < 2 ^ nat (bitlen M)" using bitlen_bounds [OF M] by simp
    moreover have "bitlen M \<le> 53 + d \<Longrightarrow> (2::int) ^ nat (bitlen M) \<le> 2 ^ nat (53 + d)"
      by (intro power_increasing) (simp_all add: nat_mono)
    ultimately have "M < 2 ^ nat (53 + d)" by linarith
    also have "\<dots> = 2 ^ nat d * 2 ^ 53" using d by (simp add: nat_add_distrib power_add)
    finally have "M div 2 ^ nat d < 2 ^ 53" by (intro int_div_less) simp_all
    then have "q < 2 ^ 54" using round_half_even_bounds [of M "nat d"] by (simp add: q_def)
    then have bq: "bitlen q \<le> 54" by (simp add: bitlen_le_iff_power)
    have bq': "bitlen \<bar>q\<bar> = bitlen q" using q0 by simp
    have de: "E + d = bitlen M - 53 + E \<or> E + d = - 1074" using M by (auto simp: d_def max_def)
    then have sum: "bitlen q + (E + d) \<le> max (bitlen M + E + 1) (- 1020)
        \<and> bitlen q + (E + d) \<le> 1024"
      using bq b bitlen_nonneg [of M] by auto
    have "fl_round M E = Finite q (E + d)"
      using False sum unfolding fl_round_def absM d_def [symmetric]
      by (simp add: Let_def q_def [symmetric] bq')
    then show ?thesis using q0 sum by simp
  qed
qed

lemma fraction_bitlen:
  assumes "0 < m" "float_value m e \<le> 1"
  shows "bitlen m + e \<le> 1"
proof (cases "0 \<le> e")
  case True
  then have v: "real_of_int m * 2 ^ nat e \<le> 1" using assms(2) by (simp add: float_value_def)
  have "real_of_int (m * 2 ^ nat e) \<le> real_of_int 1" using v by simp
  then have le: "m * 2 ^ nat e \<le> 1" by (simp only: of_int_le_iff)
  have "m * 1 \<le> m * 2 ^ nat e" using assms(1) by (intro mult_left_mono) simp_all
  then have m1: "m = 1" using le assms(1) by linarith
  then have "(2::int) ^ nat e \<le> 1" using le by simp
  have "nat e = 0"
  proof (rule ccontr)
    assume "nat e \<noteq> 0"
    then have "(1::int) < 2 ^ nat e" by (simp add: one_less_power)
    then show False using \<open>(2::int) ^ nat e \<le> 1\<close> by simp
  qed
  then show ?thesis using True m1 by (simp add: bitlen_le_iff_power)
next
  case False
  then have "real_of_int m / 2 ^ nat (- e) \<le> 1" using assms(2) by (simp add: float_value_def)
  then have "real_of_int m \<le> 2 ^ nat (- e)" by (simp add: pos_divide_le_eq)
  then have "real_of_int m \<le> real_of_int (2 ^ nat (- e))" by simp
  then have "m \<le> 2 ^ nat (- e)" by (simp only: of_int_le_iff)
  also have "\<dots> < 2 ^ nat (1 - e)"
    using False by (intro power_strict_increasing) (simp_all add: nat_less_iff nat_less_eq_zless)
  finally have "bitlen m \<le> 1 - e" using False by (simp add: bitlen_le_iff_power)
  then show ?thesis by simp
qed

lemma split_lengths_returns:
  assumes L: "0 \<le> L" "L < 2 ^ 1021" and m: "0 \<le> m" and f: "float_value m e \<le> 1"
  shows "\<exists>t. split_lengths L (Finite m e) = Inr (t, L - t)"
proof -
  have "\<exists>q e'. int_to_float L = Inr (Finite q e') \<and> 0 \<le> q \<and> (q = 0 \<or> bitlen q + e' \<le> 1022)"
  proof (cases "L = 0")
    case True
    then show ?thesis using fl_round_zero [of 0] by (auto simp: int_to_float_def)
  next
    case False
    then have pos: "0 < L" using L by simp
    have "bitlen L \<le> 1021" using L by (simp add: bitlen_le_iff_power)
    then have "bitlen L + 0 \<le> 1023" by simp
    from fl_round_finite [OF pos this] obtain q e' where
      "fl_round L 0 = Finite q e'" "0 \<le> q" "bitlen q + e' \<le> max (bitlen L + 0 + 1) (- 1020)"
      by blast
    then show ?thesis using \<open>bitlen L \<le> 1021\<close> by (auto simp: int_to_float_def)
  qed
  then obtain q e' where x: "int_to_float L = Inr (Finite q e')" and q0: "0 \<le> q"
    and bq: "q = 0 \<or> bitlen q + e' \<le> 1022"
    by blast
  have "\<exists>q2 e2. fl_round (q * m) (e' + e) = Finite q2 e2"
  proof (cases "q = 0 \<or> m = 0")
    case True
    then have "q * m = 0" by auto
    then show ?thesis using fl_round_zero [of "e' + e"] by auto
  next
    case False
    then have pos: "0 < q" "0 < m" using q0 m by simp_all
    have "bitlen (q * m) \<le> bitlen q + bitlen m" using pos by (rule bitlen_mult_le)
    moreover have "bitlen m + e \<le> 1" using pos(2) f by (rule fraction_bitlen)
    moreover have "bitlen q + e' \<le> 1022" using bq pos by simp
    ultimately have "bitlen (q * m) + (e' + e) \<le> 1023" by simp
    moreover have "0 < q * m" using pos by simp
    ultimately show ?thesis using fl_round_finite by blast
  qed
  then obtain q2 e2 where "float_mul (Finite q e') (Finite m e) = Finite q2 e2" by auto
  then show ?thesis using x by (simp add: split_lengths_def py_int_def)
qed

text \<open>
  Claim C3. For every dataset length \<open>0 \<le> L < 2 ^ 1021\<close> and every training fraction
  \<open>m * 2 ^ e\<close> in \<open>[0, 1]\<close>, \<^verbatim>\<open>load_train_val_data\<close> computes both lengths without
  raising, and they sum exactly to \<open>L\<close>.
\<close>

theorem split_lengths_sum_to_full:
  assumes "0 \<le> L" "L < 2 ^ 1021" "0 \<le> m" "float_value m e \<le> 1"
  shows "\<exists>t v. split_lengths L (Finite m e) = Inr (t, v) \<and> t + v = L"
proof -
  from split_lengths_returns [OF assms] obtain t where
    "split_lengths L (Finite m e) = Inr (t, L - t)"
    by blast
  then show ?thesis using split_lengths_sum by blast
qed

theorem split_lengths_sum_to_full_witness:
  "split_lengths 60000 (Finite 7205759403792794 (- 53)) = Inr (48000, 12000)
     \<and> (48000::int) + 12000 = 60000"
proof -
  have v: "float_value 7205759403792794 (- 53) \<le> 1" by (simp add: float_value_def)
  from split_lengths_sum_to_full [of 60000 7205759403792794 "- 53", OF _ _ _ v]
  obtain t u where "split_lengths 60000 (Finite 7205759403792794 (- 53)) = Inr (t, u)"
    "t + u = 60000"
    by auto
  moreover have "split_lengths 60000 (Finite 7205759403792794 (- 53)) = Inr (48000, 12000)"
    by code_simp
  ultimately show ?thesis by simp
qed
section \<open>Properties of \<^verbatim>\<open>save_model\<close>\<close>

lemma map_of_filter_key:
  "map_of (filter (\<lambda>(n, c). P n) es) k = (if P k then map_of es k else None)"
  by (induction es) auto

lemma copy_entries_errs:
  "fst (copy_entries locked es dst) = filter locked (map fst es)"
  by (induction locked es dst rule: copy_entries.induct) (auto split: prod.splits)

lemma copy_entries_fold:
  "snd (copy_entries locked es dst) =
     fold (\<lambda>(n, c). AList.update n c) (filter (\<lambda>(n, c). \<not> locked n) es) dst"
  by (induction locked es dst rule: copy_entries.induct) (auto split: prod.splits)

lemma map_of_fold_update:
  "distinct (map fst xs) \<Longrightarrow>
   map_of (fold (\<lambda>(n, c). AList.update n c) xs dst) k =
     (case map_of xs k of Some c \<Rightarrow> Some c | None \<Rightarrow> map_of dst k)"
proof (induction xs arbitrary: dst)
  case Nil
  then show ?case by simp
next
  case (Cons x xs)
  obtain n c where x: "x = (n, c)" by (cases x)
  have n: "map_of xs n = None" using Cons.prems x by (simp add: map_of_eq_None_iff)
  show ?case
  proof (cases "k = n")
    case True
    then show ?thesis using Cons x n by (simp add: update_conv')
  next
    case False
    then show ?thesis using Cons x by (simp add: update_conv' split: option.splits)
  qed
qed

lemma distinct_filter_keys:
  "distinct (map fst es) \<Longrightarrow> distinct (map fst (filter P es))"
  by (induction es) auto

lemma copy_entries_map_of:
  assumes "distinct (map fst es)"
  shows "map_of (snd (copy_entries locked es dst)) k =
     (if map_of es k \<noteq> None \<and> \<not> locked k then map_of es k else map_of dst k)"
proof -
  have "distinct (map fst (filter (\<lambda>(n, c). \<not> locked n) es))"
    using assms by (rule distinct_filter_keys)
  then show ?thesis
    by (simp add: copy_entries_fold map_of_fold_update map_of_filter_key split: option.splits)
qed

lemma update_fresh: "k \<notin> fst ` set al \<Longrightarrow> AList.update k v al = al @ [(k, v)]"
  by (induction al) auto

lemma fold_update_fresh:
  "distinct (map fst es) \<Longrightarrow> fst ` set es \<inter> fst ` set dst = {} \<Longrightarrow>
   fold (\<lambda>(n, c). AList.update n c) es dst = dst @ es"
proof (induction es arbitrary: dst)
  case Nil
  then show ?case by simp
next
  case (Cons x es)
  obtain n c where x: "x = (n, c)" by (cases x)
  have "n \<notin> fst ` set dst" using Cons.prems(2) x by auto
  then have u: "AList.update n c dst = dst @ [(n, c)]" by (rule update_fresh)
  have "fst ` set es \<inter> fst ` set (dst @ [(n, c)]) = {}"
    using Cons.prems x by auto
  then have "fold (\<lambda>(n, c). AList.update n c) es (dst @ [(n, c)]) = (dst @ [(n, c)]) @ es"
    using Cons.IH Cons.prems(1) by simp
  then show ?case using x u by simp
qed

lemma filter_unlocked: "\<forall>n. \<not> locked n \<Longrightarrow> filter (\<lambda>(n, c). \<not> locked n) es = es"
  by (induction es) auto

lemma copy_entries_fresh:
  assumes "distinct (map fst es)" "\<forall>n. \<not> locked n" "fst ` set es \<inter> fst ` set dst = {}"
  shows "copy_entries locked es dst = ([], dst @ es)"
proof -
  have "fst (copy_entries locked es dst) = []"
    using assms(2) by (simp add: copy_entries_errs)
  moreover have "snd (copy_entries locked es dst) = dst @ es"
    using assms by (simp add: copy_entries_fold filter_unlocked fold_update_fresh)
  ultimately show ?thesis by (simp add: prod_eq_iff)
qed

lemma mlflow_save_ok:
  "mlflow_pytorch_save_model a p fs = (None, fs1) \<Longrightarrow> fs1 = fs\<lparr>dirs := (dirs fs)(p \<mapsto> a)\<rparr>"
  by (auto simp: mlflow_pytorch_save_model_def split: option.splits list.splits)


lemma rmtree_ignore_errors:
  "rmtree path True fs = (None, fs\<lparr>dirs := (dirs fs)(path := after_rmtree path fs)\<rparr>)"
  by (simp add: rmtree_def)

lemma map_of_after_rmtree:
  "map_of (case after_rmtree path fs of None \<Rightarrow> [] | Some d \<Rightarrow> d) k =
     (case dirs fs path of
        None \<Rightarrow> None
      | Some old \<Rightarrow> if undeletable fs path k then map_of old k else None)"
proof (cases "dirs fs path")
  case None
  then show ?thesis by (simp add: after_rmtree_def)
next
  case (Some old)
  have "map_of (filter (\<lambda>(n, c). undeletable fs path n) old) k =
          (if undeletable fs path k then map_of old k else None)"
    by (rule map_of_filter_key)
  then show ?thesis using Some
    by (cases "filter (\<lambda>(n, c). undeletable fs path n) old = []")
       (auto simp: after_rmtree_def)
qed

lemma save_model_steps:
  assumes "save_model artifact uuid model_dir fs = (None, fs')"
  shows "\<exists>fs1 fs2. mlflow_pytorch_save_model artifact (temp_path fs uuid) fs = (None, fs1)
           \<and> rmtree model_dir True fs1 = (None, fs2)
           \<and> copytree (temp_path fs uuid) model_dir True fs2 = (None, fs')"
  using assms
  by (auto simp: save_model_def save_model_run_def split: prod.splits option.splits)

text \<open>
  Claim C5, as amended. When \<^verbatim>\<open>save_model\<close> returns, \<^verbatim>\<open>model_dir\<close> exists and holds
  every file of the new artifact with its new contents. A file of \<^verbatim>\<open>model_dir\<close> that
  is not part of the new artifact is a prior file whose deletion failed; every prior
  file that could be deleted is gone. So the prior contents are fully replaced exactly
  when each of them can be deleted.
\<close>

theorem save_model_replaces_deletable_contents:
  assumes run: "save_model artifact uuid model_dir fs = (None, fs')"
    and dist: "distinct (map fst artifact)"
    and neq: "model_dir \<noteq> temp_path fs uuid"
  shows "\<exists>d. dirs fs' model_dir = Some d \<and>
           (\<forall>n. map_of d n =
              (case map_of artifact n of
                 Some c \<Rightarrow> Some c
               | None \<Rightarrow>
                   (case dirs fs model_dir of
                      None \<Rightarrow> None
                    | Some old \<Rightarrow> if undeletable fs model_dir n then map_of old n else None)))"
proof -
  define tmp where "tmp = temp_path fs uuid"
  from save_model_steps [OF run] obtain fs1 fs2 where
    s1: "mlflow_pytorch_save_model artifact tmp fs = (None, fs1)" and
    s2: "rmtree model_dir True fs1 = (None, fs2)" and
    s3: "copytree tmp model_dir True fs2 = (None, fs')"
    unfolding tmp_def by blast
  have fs1: "fs1 = fs\<lparr>dirs := (dirs fs)(tmp \<mapsto> artifact)\<rparr>" using s1 by (rule mlflow_save_ok)
  have fs2: "fs2 = fs1\<lparr>dirs := (dirs fs1)(model_dir := after_rmtree model_dir fs1)\<rparr>"
    using s2 by (simp add: rmtree_ignore_errors)
  have src: "dirs fs2 tmp = Some artifact" using neq by (simp add: fs1 fs2 tmp_def)
  define dst0 where "dst0 = (case after_rmtree model_dir fs1 of None \<Rightarrow> [] | Some d \<Rightarrow> d)"
  have dst: "(case dirs fs2 model_dir of None \<Rightarrow> [] | Some d \<Rightarrow> d) = dst0"
    by (simp add: fs2 dst0_def)
  define res where "res = copy_entries (unwritable fs model_dir) artifact dst0"
  have lock: "unwritable fs2 model_dir = unwritable fs model_dir" by (simp add: fs1 fs2)
  have cp: "copytree tmp model_dir True fs2 =
              (if fst res = [] then None else Some (ShutilError (fst res)),
               fs2\<lparr>dirs := (dirs fs2)(model_dir \<mapsto> snd res)\<rparr>)"
    by (simp add: copytree_def src dst lock res_def split: prod.splits)
  have noerr: "fst res = []" using s3 cp by (auto split: if_splits)
  have fs': "fs' = fs2\<lparr>dirs := (dirs fs2)(model_dir \<mapsto> snd res)\<rparr>" using s3 cp by simp
  have unlocked: "map_of artifact n \<noteq> None \<Longrightarrow> \<not> unwritable fs model_dir n" for n
  proof -
    assume "map_of artifact n \<noteq> None"
    then have "n \<in> set (map fst artifact)" by (auto simp: map_of_eq_None_iff)
    moreover have "filter (unwritable fs model_dir) (map fst artifact) = []"
      using noerr by (simp add: res_def copy_entries_errs)
    ultimately show ?thesis by (metis filter_empty_conv)
  qed
  have old: "map_of dst0 n =
      (case dirs fs model_dir of
         None \<Rightarrow> None
       | Some old \<Rightarrow> if undeletable fs model_dir n then map_of old n else None)" for n
  proof -
    have "undeletable fs1 = undeletable fs" by (simp add: fs1)
    moreover have "dirs fs1 model_dir = dirs fs model_dir" using neq by (simp add: fs1 tmp_def)
    ultimately show ?thesis
      by (simp add: dst0_def map_of_after_rmtree split: option.splits)
  qed
  have "map_of (snd res) n =
      (case map_of artifact n of
         Some c \<Rightarrow> Some c
       | None \<Rightarrow>
           (case dirs fs model_dir of
              None \<Rightarrow> None
            | Some old \<Rightarrow> if undeletable fs model_dir n then map_of old n else None))" for n
    using unlocked [of n] old [of n]
    by (simp add: res_def copy_entries_map_of [OF dist] split: option.splits)
  then show ?thesis by (simp add: fs')
qed





lemmas save_model_eval =
  save_model_def save_model_run_def mlflow_pytorch_save_model_def rmtree_def after_rmtree_def
  copytree_def temp_path_def small_artifact_def Let_def



text \<open>
  Claim C5 as stated fails: with a prior file \<^verbatim>\<open>old.bin\<close> that cannot be deleted,
  \<^verbatim>\<open>rmtree\<close> drops the error, \<^verbatim>\<open>copytree\<close> merges into the existing directory, and
  \<^verbatim>\<open>save_model\<close> returns with \<^verbatim>\<open>old.bin\<close> still in \<^verbatim>\<open>model_dir\<close>, although it is not
  part of the new artifact.
\<close>

theorem save_model_keeps_undeletable_counterexample:
  "fst (save_model small_artifact ''u'' ''model'' fs_locked_model) = None
   \<and> dirs fs_locked_model ''model'' = Some [(''old.bin'', ''0'')]
   \<and> map_of small_artifact ''old.bin'' = None
   \<and> dirs (snd (save_model small_artifact ''u'' ''model'' fs_locked_model)) ''model''
        = Some [(''old.bin'', ''0''), (''MLmodel'', ''flavors''), (''data/model.pth'', ''weights'')]"
  by (simp add: save_model_eval fs_locked_model_def)

theorem save_model_replaces_deletable_contents_witness:
  "save_model small_artifact ''u'' ''model'' fs_old_model
     = (None, snd (save_model small_artifact ''u'' ''model'' fs_old_model))
   \<and> distinct (map fst small_artifact)
   \<and> ''model'' \<noteq> temp_path fs_old_model ''u''
   \<and> (\<exists>d. dirs (snd (save_model small_artifact ''u'' ''model'' fs_old_model)) ''model'' = Some d
          \<and> map_of d ''MLmodel'' = Some ''flavors''
          \<and> map_of d ''old.bin'' = None)"
proof -
  have h1: "save_model small_artifact ''u'' ''model'' fs_old_model
     = (None, snd (save_model small_artifact ''u'' ''model'' fs_old_model))"
    by (simp add: save_model_eval fs_old_model_def)
  have h2: "distinct (map fst small_artifact)" by (simp add: small_artifact_def)
  have h3: "''model'' \<noteq> temp_path fs_old_model ''u''"
    by (simp add: fs_old_model_def temp_path_def)
  from save_model_replaces_deletable_contents [OF h1 h2 h3] obtain d where
    d: "dirs (snd (save_model small_artifact ''u'' ''model'' fs_old_model)) ''model'' = Some d"
    and m: "\<forall>n. map_of d n =
              (case map_of small_artifact n of
                 Some c \<Rightarrow> Some c
               | None \<Rightarrow>
                   (case dirs fs_old_model ''model'' of
                      None \<Rightarrow> None
                    | Some old \<Rightarrow>
                        if undeletable fs_old_model ''model'' n then map_of old n else None))"
    by blast
  have "map_of d ''MLmodel'' = Some ''flavors''"
    using m by (simp add: small_artifact_def)
  moreover have "map_of d ''old.bin'' = None"
    using m by (simp add: small_artifact_def fs_old_model_def)
  ultimately show ?thesis using h1 h2 h3 d by blast
qed


section \<open>Properties of the training driver\<close>























section \<open>Properties of the command lines\<close>








section \<open>Properties of the scoring script\<close>

lemma map_result_total:
  "\<forall>x \<in> set xs. \<exists>y. f x = Inr y \<Longrightarrow> \<exists>ys. map_result f xs = Inr ys \<and> length ys = length xs"
proof (induction xs)
  case Nil
  then show ?case by simp
next
  case (Cons x xs)
  then obtain y ys where "f x = Inr y" "map_result f xs = Inr ys" "length ys = length xs"
    by auto
  then show ?case by simp
qed

lemma map_result_length:
  "map_result f xs = Inr ys \<Longrightarrow> length ys = length xs"
  by (induction xs arbitrary: ys) (auto split: sum.splits)

lemma map_result_set:
  "map_result f xs = Inr ys \<Longrightarrow> y \<in> set ys \<Longrightarrow> \<exists>x \<in> set xs. f x = Inr y"
  by (induction xs arbitrary: ys) (auto split: sum.splits)

lemma fold_argmax_in:
  "fold (\<lambda>i best. if scores best < scores i then i else best) xs b \<in> insert b (set xs)"
  by (induction xs arbitrary: b) auto

lemma argmax10_less: "argmax10 scores < 10"
proof -
  have "argmax10 scores \<in> insert 0 (set [1..<10])"
    unfolding argmax10_def by (rule fold_argmax_in)
  then show ?thesis by auto
qed

lemma class_name_argmax:
  "class_name (argmax10 scores) = Inr (FashionMNIST_classes ! argmax10 scores)"
  using argmax10_less [of scores] by (simp add: class_name_def FashionMNIST_classes_def)

lemma class_name_in_classes: "class_name i = Inr c \<Longrightarrow> c \<in> set FashionMNIST_classes"
  by (auto simp: class_name_def split: if_splits)

lemma image_paths_listing:
  "iterdir env IMAGES_DIR = Some entries \<Longrightarrow>
   image_paths env =
     Inr (map (\<lambda>(name, k). IMAGES_DIR @ ''/'' @ name) (filter (\<lambda>(name, k). is_file k) entries))"
  by (simp add: image_paths_def)

text \<open>
  Claim C4. When the model loads and the regular files of \<^verbatim>\<open>IMAGES_DIR\<close> are \<open>N\<close>
  images that decode, the scoring script produces exactly \<open>N\<close> predictions, each of
  them one of the ten names of \<^verbatim>\<open>FashionMNIST.classes\<close>.
\<close>

theorem score_main_one_label_per_image:
  assumes model: "load_model env SCORE_MODEL_DIR = Inr model"
    and listing: "iterdir env IMAGES_DIR = Some entries"
    and images: "\<forall>(name, k) \<in> set entries.
                   is_file k \<longrightarrow> (\<exists>img. read_image env (IMAGES_DIR @ ''/'' @ name) = Inr img)"
  shows "\<exists>predictions. score_main env = Inr predictions
           \<and> length predictions = length (filter (\<lambda>(name, k). is_file k) entries)
           \<and> set predictions \<subseteq> set FashionMNIST_classes"
proof -
  define paths where
    "paths = map (\<lambda>(name, k). IMAGES_DIR @ ''/'' @ name) (filter (\<lambda>(name, k). is_file k) entries)"
  have ip: "image_paths env = Inr paths"
    using listing by (simp add: image_paths_listing paths_def)
  have "\<forall>p \<in> set paths. \<exists>img. read_image env p = Inr img"
    using images by (auto simp: paths_def)
  then obtain imgs where
    ds: "FashionMNISTDatasetFromImages env paths = Inr imgs" and n: "length imgs = length paths"
    unfolding FashionMNISTDatasetFromImages_def using map_result_total by blast
  have "\<forall>i \<in> set (predict env imgs model). \<exists>c. class_name i = Inr c"
    by (auto simp: predict_def class_name_argmax)
  then obtain predictions where
    ps: "map_result class_name (predict env imgs model) = Inr predictions" and
    len: "length predictions = length (predict env imgs model)"
    using map_result_total by blast
  have sm: "score_main env = Inr predictions"
    by (simp add: score_main_def model ip ds ps)
  have "length predictions = length (filter (\<lambda>(name, k). is_file k) entries)"
    using len n by (simp add: predict_def paths_def)
  moreover have "set predictions \<subseteq> set FashionMNIST_classes"
    using map_result_set [OF ps] class_name_in_classes by blast
  ultimately show ?thesis using sm by blast
qed

text \<open>
  Claim C10. An entry of \<^verbatim>\<open>IMAGES_DIR\<close> that is not a regular file, a subdirectory
  for instance, is not among the paths the dataset is built from: these are the
  regular files directly inside the directory, one path each, and a run of the
  script yields one prediction per path.
\<close>

theorem image_paths_regular_files_only:
  assumes listing: "iterdir env IMAGES_DIR = Some entries"
    and entry: "(name, k) \<in> set entries"
    and other: "\<not> is_file k"
    and names: "distinct (map fst entries)"
  shows "\<exists>paths. image_paths env = Inr paths
           \<and> IMAGES_DIR @ ''/'' @ name \<notin> set paths
           \<and> length paths = length (filter (\<lambda>(name, k). is_file k) entries)
           \<and> (\<forall>predictions. score_main env = Inr predictions \<longrightarrow>
                 length predictions = length paths)"
proof -
  define paths where
    "paths = map (\<lambda>(name, k). IMAGES_DIR @ ''/'' @ name) (filter (\<lambda>(name, k). is_file k) entries)"
  have ip: "image_paths env = Inr paths"
    using listing by (simp add: image_paths_listing paths_def)
  have "IMAGES_DIR @ ''/'' @ name \<notin> set paths"
  proof
    assume "IMAGES_DIR @ ''/'' @ name \<in> set paths"
    then obtain k' where "(name, k') \<in> set entries" "is_file k'"
      by (auto simp: paths_def)
    then have "k' = k" using entry names by (meson eq_key_imp_eq_value)
    then show False using other \<open>is_file k'\<close> by simp
  qed
  moreover have "length paths = length (filter (\<lambda>(name, k). is_file k) entries)"
    by (simp add: paths_def)
  moreover have "length predictions = length paths" if "score_main env = Inr predictions"
    for predictions
    using that ip
    by (auto simp: score_main_def FashionMNISTDatasetFromImages_def predict_def
             split: sum.splits dest!: map_result_length)
  ultimately show ?thesis using ip by blast
qed

lemma argmax10_toy: "argmax10 (\<lambda>i. if i = 3 then 1 else 0) = 3"
  by (simp add: argmax10_def upt_rec)

lemmas score_eval =
  score_main_def image_paths_def FashionMNISTDatasetFromImages_def predict_def class_name_def
  FashionMNIST_classes_def toy_score_env_def is_file_def argmax10_toy

theorem score_main_one_label_per_image_witness:
  "load_model toy_score_env SCORE_MODEL_DIR = Inr ()
   \<and> iterdir toy_score_env IMAGES_DIR
       = Some [(''a.png'', RegularFile), (''sub'', Directory), (''b.png'', RegularFile)]
   \<and> score_main toy_score_env = Inr [''Dress'', ''Dress'']
   \<and> (\<exists>predictions. score_main toy_score_env = Inr predictions
          \<and> length predictions = 2 \<and> set predictions \<subseteq> set FashionMNIST_classes)"
proof -
  have h1: "load_model toy_score_env SCORE_MODEL_DIR = Inr ()"
    by (simp add: toy_score_env_def)
  have h2: "iterdir toy_score_env IMAGES_DIR
       = Some [(''a.png'', RegularFile), (''sub'', Directory), (''b.png'', RegularFile)]"
    by (simp add: toy_score_env_def)
  have h3: "\<forall>(name, k) \<in> set [(''a.png'', RegularFile), (''sub'', Directory), (''b.png'', RegularFile)].
              is_file k \<longrightarrow> (\<exists>img. read_image toy_score_env (IMAGES_DIR @ ''/'' @ name) = Inr img)"
    by (simp add: toy_score_env_def)
  have v: "score_main toy_score_env = Inr [''Dress'', ''Dress'']"
    by (simp add: score_eval)
  from score_main_one_label_per_image [OF h1 h2 h3] obtain predictions where
    "score_main toy_score_env = Inr predictions"
    "length predictions
       = length (filter (\<lambda>(name, k). is_file k)
                   [(''a.png'', RegularFile), (''sub'', Directory), (''b.png'', RegularFile)])"
    "set predictions \<subseteq> set FashionMNIST_classes"
    by blast
  then show ?thesis using h1 h2 v by (simp add: is_file_def)
qed

theorem image_paths_regular_files_only_witness:
  "iterdir toy_score_env IMAGES_DIR
       = Some [(''a.png'', RegularFile), (''sub'', Directory), (''b.png'', RegularFile)]
   \<and> \<not> is_file Directory
   \<and> image_paths toy_score_env = Inr [IMAGES_DIR @ ''/a.png'', IMAGES_DIR @ ''/b.png'']
   \<and> (\<exists>paths. image_paths toy_score_env = Inr paths
          \<and> IMAGES_DIR @ ''/'' @ ''sub'' \<notin> set paths \<and> length paths = 2)"
proof -
  have h1: "iterdir toy_score_env IMAGES_DIR
       = Some [(''a.png'', RegularFile), (''sub'', Directory), (''b.png'', RegularFile)]"
    by (simp add: toy_score_env_def)
  have h2: "(''sub'', Directory)
       \<in> set [(''a.png'', RegularFile), (''sub'', Directory), (''b.png'', RegularFile)]"
    by simp
  have h3: "\<not> is_file Directory" by (simp add: is_file_def)
  have h4: "distinct (map fst [(''a.png'', RegularFile), (''sub'', Directory), (''b.png'', RegularFile)])"
    by simp
  have v: "image_paths toy_score_env = Inr [IMAGES_DIR @ ''/a.png'', IMAGES_DIR @ ''/b.png'']"
    by (simp add: image_paths_def toy_score_env_def is_file_def)
  from image_paths_regular_files_only [OF h1 h2 h3 h4] obtain paths where
    "image_paths toy_score_env = Inr paths"
    "IMAGES_DIR @ ''/'' @ ''sub'' \<notin> set paths"
    "length paths
       = length (filter (\<lambda>(name, k). is_file k)
                   [(''a.png'', RegularFile), (''sub'', Directory), (''b.png'', RegularFile)])"
    by blast
  then show ?thesis using h1 h3 v by (simp add: is_file_def)
qed

end
